theory Spec2Isabelle
  imports Main
begin

section \<open>The shared record of shared\_sync.c\<close>

text \<open>
  The program maps a region of \<open>SHM_SIZE\<close> bytes and uses its start as one
  \<open>SharedMessage\<close>: an \<open>int\<close> identifier, a text buffer of \<open>MAX_MSG_LEN\<close> bytes and an
  \<open>int\<close> flag. The identifier only ever holds 0 or \<open>100 + i\<close> with \<open>i\<close> between 1 and 5,
  the loop counters stay between 1 and 6 and the flag is only ever assigned 0, so no C
  \<open>int\<close> of the program can wrap around; the integers are modelled as \<open>int\<close>.
\<close>

definition SHM_SIZE :: nat where
  "SHM_SIZE = 1024"

definition MAX_MSG_LEN :: nat where
  "MAX_MSG_LEN = 256"

record SharedMessage =
  message_id :: int
  text_message :: "char list"
  ready :: int

subsection \<open>Layout of the record\<close>

text \<open>
  The size of the record follows the declaration order of its three members. The size
  and the alignment of \<open>int\<close> belong to the platform and are parameters; \<open>char\<close> has
  size and alignment 1. Each member starts at the next multiple of its alignment, and
  the whole record is padded to a multiple of its strictest alignment.
\<close>

definition align_up :: "nat \<Rightarrow> nat \<Rightarrow> nat" where
  "align_up n a = ((n + a - 1) div a) * a"

definition offset_message_id :: nat where
  "offset_message_id = 0"

definition offset_text_message :: "nat \<Rightarrow> nat" where
  "offset_text_message int_size = align_up (offset_message_id + int_size) 1"

definition offset_ready :: "nat \<Rightarrow> nat \<Rightarrow> nat" where
  "offset_ready int_size int_align =
     align_up (offset_text_message int_size + MAX_MSG_LEN * 1) int_align"

definition sizeof_SharedMessage :: "nat \<Rightarrow> nat \<Rightarrow> nat" where
  "sizeof_SharedMessage int_size int_align =
     align_up (offset_ready int_size int_align + int_size) (max int_align 1)"

section \<open>The C library calls on the text buffer\<close>

definition NUL :: char where
  "NUL = CHR 0x00"

text \<open>\<open>memset(buf, c, n)\<close> overwrites the first \<open>n\<close> bytes.\<close>

definition memset :: "char list \<Rightarrow> char \<Rightarrow> nat \<Rightarrow> char list" where
  "memset buf c n = replicate n c @ drop n buf"

text \<open>The \<open>%d\<close> conversion of \<open>printf\<close>: decimal digits, with a minus sign below zero.\<close>

definition digit_char :: "nat \<Rightarrow> char" where
  "digit_char d = ''0123456789'' ! (d mod 10)"

fun dec_nat :: "nat \<Rightarrow> string" where
  "dec_nat n = (if n < 10 then [digit_char n] else dec_nat (n div 10) @ [digit_char (n mod 10)])"

definition show_int :: "int \<Rightarrow> string" where
  "show_int i = (if i < 0 then CHR ''-'' # dec_nat (nat (- i)) else dec_nat (nat i))"

text \<open>The text the Writer formats in iteration \<open>i\<close> (line 114).\<close>

definition writer_format :: "int \<Rightarrow> string" where
  "writer_format i = ''Message from Child 1 (writer), iteration '' @ show_int i"

text \<open>
  \<open>snprintf(buf, n, ...)\<close> stores at most \<open>n\<close> bytes: the first \<open>n - 1\<close> characters of the
  formatted text and a terminating NUL; with \<open>n = 0\<close> it stores nothing.
  \<open>snprintf_bytes\<close> are the bytes stored, \<open>store\<close> puts them at the start of the buffer
  and leaves the rest of the buffer as it was. A store longer than the buffer would
  make the result longer than the buffer: that is how an overflow shows in the model.
\<close>

definition snprintf_bytes :: "nat \<Rightarrow> string \<Rightarrow> char list" where
  "snprintf_bytes n s = (if n = 0 then [] else take (n - 1) s @ [NUL])"

definition store :: "char list \<Rightarrow> char list \<Rightarrow> char list" where
  "store buf bytes = bytes @ drop (length bytes) buf"

definition snprintf :: "char list \<Rightarrow> nat \<Rightarrow> string \<Rightarrow> char list" where
  "snprintf buf n s = store buf (snprintf_bytes n s)"

text \<open>The \<open>%s\<close> conversion reads the buffer up to its first NUL.\<close>

definition c_string :: "char list \<Rightarrow> string" where
  "c_string buf = takeWhile (\<lambda>c. c \<noteq> NUL) buf"

definition null_terminated :: "char list \<Rightarrow> bool" where
  "null_terminated buf = (NUL \<in> set buf)"

section \<open>The three processes\<close>

text \<open>
  \<open>main\<close> runs as three processes after its two \<open>fork\<close> calls: the parent, the first
  child (the Writer, lines 101 to 129) and the second child (the Reader, lines 139 to
  171). Each process is a program counter over the statements of \<open>main\<close> it executes,
  one statement per step. The processes share the mapped record and nothing else; a
  load or a store of the record is visible to the others at once.
\<close>

datatype parent_pc =
    P_shm_open | P_ftruncate | P_mmap
  | P_init_id | P_init_ready | P_memset
  | P_say_created | P_say_mapped | P_say_flag
  | P_fork1 | P_fork2
  | P_say_waiting | P_wait1 | P_say_child1 | P_wait2 | P_say_child2
  | P_munmap | P_close | P_shm_unlink | P_say_cleaned | P_return
  | P_exited int

datatype writer_pc =
    W_unborn
  | W_say_started | W_for_init | W_for_test
  | W_set_id | W_snprintf | W_say_wrote | W_usleep | W_for_incr
  | W_say_finished | W_munmap | W_close | W_exit
  | W_exited int

datatype reader_pc =
    R_unborn
  | R_say_started | R_for_init | R_for_test
  | R_say_read | R_usleep | R_for_incr
  | R_say_finished | R_munmap | R_close | R_exit
  | R_exited int

text \<open>
  What the operating system answers to a call that can fail: the value it returns, or
  \<open>-1\<close> (\<open>MAP_FAILED\<close> for \<open>mmap\<close>) with \<open>errno\<close> set. \<open>fork\<close> answers in the calling process
  with the new child's process id.
\<close>

type_synonym errno = nat

datatype 'a sysres = Ok 'a | Fail errno

record env =
  shm_open_res :: "int sysres"
  ftruncate_res :: "unit sysres"
  mmap_res :: "unit sysres"
  fork1_res :: "int sysres"
  fork2_res :: "int sysres"
  region0 :: SharedMessage

text \<open>
  The lines the processes print, in the order the calls are made. \<open>perror(s)\<close> prints
  \<open>s\<close> and the message of the current \<open>errno\<close>. The mapped address of line 90 is left out.
\<close>

datatype printed =
    Perror string errno
  | Parent_created int
  | Parent_mapped
  | Parent_using_flag
  | Child1_started int
  | Child1_wrote int string
  | Child1_finished
  | Child2_started int
  | Child2_read int string
  | Child2_finished
  | Parent_waiting
  | Parent_child1_completed int
  | Parent_child2_completed int
  | Parent_cleaned_up

record state =
  shm :: SharedMessage
  p_pc :: parent_pc
  w_pc :: writer_pc
  r_pc :: reader_pc
  shm_fd :: int
  pid1 :: int
  pid2 :: int
  w_i :: int
  r_i :: int
  p_unmapped :: bool
  shm_unlinked :: bool
  out :: "printed list"

text \<open>
  The state before \<open>main\<close> starts. \<open>shm_open\<close> is called with \<open>O_CREAT\<close> and without
  \<open>O_EXCL\<close>, so the object may exist already: the region starts with any contents.
\<close>

definition init :: "env \<Rightarrow> state" where
  "init e = \<lparr> shm = region0 e, p_pc = P_shm_open, w_pc = W_unborn, r_pc = R_unborn,
     shm_fd = 0, pid1 = 0, pid2 = 0, w_i = 0, r_i = 0,
     p_unmapped = False, shm_unlinked = False, out = [] \<rparr>"

definition say :: "printed \<Rightarrow> state \<Rightarrow> state" where
  "say x s = s\<lparr>out := out s @ [x]\<rparr>"

definition die :: "string \<Rightarrow> errno \<Rightarrow> state \<Rightarrow> state" where
  \<comment> \<open>\<open>perror(name); exit(1);\<close> in the parent\<close>
  "die name err s = (say (Perror name err) s)\<lparr>p_pc := P_exited 1\<rparr>"

fun writer_terminated :: "writer_pc \<Rightarrow> bool" where
  "writer_terminated (W_exited st) = True"
| "writer_terminated pc = False"

fun reader_terminated :: "reader_pc \<Rightarrow> bool" where
  "reader_terminated (R_exited st) = True"
| "reader_terminated pc = False"

text \<open>
  The parent, lines 47 to 99, 132 to 137 and 173 to 195. \<open>waitpid\<close> blocks until the
  child has terminated: the parent has no step there before that. A process that has
  called \<open>exit\<close> or returned from \<open>main\<close> has no step.
\<close>

fun parent_at :: "env \<Rightarrow> parent_pc \<Rightarrow> state \<Rightarrow> state option" where
  "parent_at e P_shm_open s =
     (case shm_open_res e of
        Fail err \<Rightarrow> Some (die ''shm_open'' err s)
      | Ok fd \<Rightarrow> Some (s\<lparr>shm_fd := fd, p_pc := P_ftruncate\<rparr>))"
| "parent_at e P_ftruncate s =
     (case ftruncate_res e of
        Fail err \<Rightarrow> Some (die ''ftruncate'' err s)
      | Ok _ \<Rightarrow> Some (s\<lparr>p_pc := P_mmap\<rparr>))"
| "parent_at e P_mmap s =
     (case mmap_res e of
        Fail err \<Rightarrow> Some (die ''mmap'' err s)
      | Ok _ \<Rightarrow> Some (s\<lparr>p_pc := P_init_id\<rparr>))"
| "parent_at e P_init_id s =
     Some (s\<lparr>shm := (shm s)\<lparr>message_id := 0\<rparr>, p_pc := P_init_ready\<rparr>)"
| "parent_at e P_init_ready s =
     Some (s\<lparr>shm := (shm s)\<lparr>ready := 0\<rparr>, p_pc := P_memset\<rparr>)"
| "parent_at e P_memset s =
     Some (s\<lparr>shm := (shm s)\<lparr>text_message := memset (text_message (shm s)) NUL MAX_MSG_LEN\<rparr>,
             p_pc := P_say_created\<rparr>)"
| "parent_at e P_say_created s =
     Some ((say (Parent_created (shm_fd s)) s)\<lparr>p_pc := P_say_mapped\<rparr>)"
| "parent_at e P_say_mapped s = Some ((say Parent_mapped s)\<lparr>p_pc := P_say_flag\<rparr>)"
| "parent_at e P_say_flag s = Some ((say Parent_using_flag s)\<lparr>p_pc := P_fork1\<rparr>)"
| "parent_at e P_fork1 s =
     (case fork1_res e of
        Fail err \<Rightarrow> Some (die ''fork'' err s)
      | Ok pid \<Rightarrow> Some (s\<lparr>pid1 := pid, w_pc := W_say_started, p_pc := P_fork2\<rparr>))"
| "parent_at e P_fork2 s =
     (case fork2_res e of
        Fail err \<Rightarrow> Some (die ''fork'' err s)
      | Ok pid \<Rightarrow> Some (s\<lparr>pid2 := pid, r_pc := R_say_started, p_pc := P_say_waiting\<rparr>))"
| "parent_at e P_say_waiting s = Some ((say Parent_waiting s)\<lparr>p_pc := P_wait1\<rparr>)"
| "parent_at e P_wait1 s =
     (if writer_terminated (w_pc s) then Some (s\<lparr>p_pc := P_say_child1\<rparr>) else None)"
| "parent_at e P_say_child1 s =
     Some ((say (Parent_child1_completed (pid1 s)) s)\<lparr>p_pc := P_wait2\<rparr>)"
| "parent_at e P_wait2 s =
     (if reader_terminated (r_pc s) then Some (s\<lparr>p_pc := P_say_child2\<rparr>) else None)"
| "parent_at e P_say_child2 s =
     Some ((say (Parent_child2_completed (pid2 s)) s)\<lparr>p_pc := P_munmap\<rparr>)"
| "parent_at e P_munmap s = Some (s\<lparr>p_unmapped := True, p_pc := P_close\<rparr>)"
| "parent_at e P_close s = Some (s\<lparr>p_pc := P_shm_unlink\<rparr>)"
| "parent_at e P_shm_unlink s = Some (s\<lparr>shm_unlinked := True, p_pc := P_say_cleaned\<rparr>)"
| "parent_at e P_say_cleaned s = Some ((say Parent_cleaned_up s)\<lparr>p_pc := P_return\<rparr>)"
| "parent_at e P_return s = Some (s\<lparr>p_pc := P_exited 0\<rparr>)"
| "parent_at e (P_exited st) s = None"

definition parent_step :: "env \<Rightarrow> state \<Rightarrow> state option" where
  "parent_step e s = parent_at e (p_pc s) s"

text \<open>
  The Writer, lines 103 to 128. The two places marked TODO in its loop (wait until the
  flag is 0, set the flag to 1) hold no statement, so the loop body is the two stores,
  the \<open>printf\<close> and the \<open>usleep\<close>. The \<open>printf\<close> of line 116 loads what it prints from the
  shared record.
\<close>

fun writer_at :: "writer_pc \<Rightarrow> state \<Rightarrow> state option" where
  "writer_at W_unborn s = None"
| "writer_at W_say_started s = Some ((say (Child1_started (pid1 s)) s)\<lparr>w_pc := W_for_init\<rparr>)"
| "writer_at W_for_init s = Some (s\<lparr>w_i := 1, w_pc := W_for_test\<rparr>)"
| "writer_at W_for_test s =
     Some (s\<lparr>w_pc := (if w_i s \<le> 5 then W_set_id else W_say_finished)\<rparr>)"
| "writer_at W_set_id s =
     Some (s\<lparr>shm := (shm s)\<lparr>message_id := 100 + w_i s\<rparr>, w_pc := W_snprintf\<rparr>)"
| "writer_at W_snprintf s =
     Some (s\<lparr>shm := (shm s)\<lparr>text_message :=
                 snprintf (text_message (shm s)) MAX_MSG_LEN (writer_format (w_i s))\<rparr>,
             w_pc := W_say_wrote\<rparr>)"
| "writer_at W_say_wrote s =
     Some ((say (Child1_wrote (message_id (shm s)) (c_string (text_message (shm s)))) s)
             \<lparr>w_pc := W_usleep\<rparr>)"
| "writer_at W_usleep s = Some (s\<lparr>w_pc := W_for_incr\<rparr>)"
| "writer_at W_for_incr s = Some (s\<lparr>w_i := w_i s + 1, w_pc := W_for_test\<rparr>)"
| "writer_at W_say_finished s = Some ((say Child1_finished s)\<lparr>w_pc := W_munmap\<rparr>)"
| "writer_at W_munmap s = Some (s\<lparr>w_pc := W_close\<rparr>)"
| "writer_at W_close s = Some (s\<lparr>w_pc := W_exit\<rparr>)"
| "writer_at W_exit s = Some (s\<lparr>w_pc := W_exited 0\<rparr>)"
| "writer_at (W_exited st) s = None"

definition writer_step :: "state \<Rightarrow> state option" where
  "writer_step s = writer_at (w_pc s) s"

text \<open>
  The Reader, lines 141 to 170. Its two TODO places (wait until the flag is 1, set the
  flag to 0) hold no statement either: the loop body is the \<open>printf\<close> of line 149, which
  loads the identifier and the text from the shared record, and the \<open>usleep\<close>.
\<close>

fun reader_at :: "reader_pc \<Rightarrow> state \<Rightarrow> state option" where
  "reader_at R_unborn s = None"
| "reader_at R_say_started s = Some ((say (Child2_started (pid2 s)) s)\<lparr>r_pc := R_for_init\<rparr>)"
| "reader_at R_for_init s = Some (s\<lparr>r_i := 1, r_pc := R_for_test\<rparr>)"
| "reader_at R_for_test s =
     Some (s\<lparr>r_pc := (if r_i s \<le> 5 then R_say_read else R_say_finished)\<rparr>)"
| "reader_at R_say_read s =
     Some ((say (Child2_read (message_id (shm s)) (c_string (text_message (shm s)))) s)
             \<lparr>r_pc := R_usleep\<rparr>)"
| "reader_at R_usleep s = Some (s\<lparr>r_pc := R_for_incr\<rparr>)"
| "reader_at R_for_incr s = Some (s\<lparr>r_i := r_i s + 1, r_pc := R_for_test\<rparr>)"
| "reader_at R_say_finished s = Some ((say Child2_finished s)\<lparr>r_pc := R_munmap\<rparr>)"
| "reader_at R_munmap s = Some (s\<lparr>r_pc := R_close\<rparr>)"
| "reader_at R_close s = Some (s\<lparr>r_pc := R_exit\<rparr>)"
| "reader_at R_exit s = Some (s\<lparr>r_pc := R_exited 0\<rparr>)"
| "reader_at (R_exited st) s = None"

definition reader_step :: "state \<Rightarrow> state option" where
  "reader_step s = reader_at (r_pc s) s"

subsection \<open>Interleavings\<close>

text \<open>
  The processes are scheduled independently: a run is any interleaving of their steps.
  A schedule names the process that is offered the next step; a process that cannot
  step (not created yet, terminated, or blocked in \<open>waitpid\<close>) leaves the state as it is.
\<close>

datatype actor = Parent | Writer | Reader

definition step :: "env \<Rightarrow> actor \<Rightarrow> state \<Rightarrow> state option" where
  "step e a s = (case a of Parent \<Rightarrow> parent_step e s | Writer \<Rightarrow> writer_step s | Reader \<Rightarrow> reader_step s)"

definition step_or_stay :: "env \<Rightarrow> actor \<Rightarrow> state \<Rightarrow> state" where
  "step_or_stay e a s = (case step e a s of None \<Rightarrow> s | Some s' \<Rightarrow> s')"

fun run :: "env \<Rightarrow> actor list \<Rightarrow> state \<Rightarrow> state" where
  "run e [] s = s"
| "run e (a # as) s = run e as (step_or_stay e a s)"

section \<open>Invariants of the runs\<close>

fun parent_rank :: "parent_pc \<Rightarrow> nat" where
  "parent_rank P_shm_open = 0"
| "parent_rank P_ftruncate = 1"
| "parent_rank P_mmap = 2"
| "parent_rank P_init_id = 3"
| "parent_rank P_init_ready = 4"
| "parent_rank P_memset = 5"
| "parent_rank P_say_created = 6"
| "parent_rank P_say_mapped = 7"
| "parent_rank P_say_flag = 8"
| "parent_rank P_fork1 = 9"
| "parent_rank P_fork2 = 10"
| "parent_rank P_say_waiting = 11"
| "parent_rank P_wait1 = 12"
| "parent_rank P_say_child1 = 13"
| "parent_rank P_wait2 = 14"
| "parent_rank P_say_child2 = 15"
| "parent_rank P_munmap = 16"
| "parent_rank P_close = 17"
| "parent_rank P_shm_unlink = 18"
| "parent_rank P_say_cleaned = 19"
| "parent_rank P_return = 20"
| "parent_rank (P_exited st) = 21"

fun p_failed :: "parent_pc \<Rightarrow> bool" where
  "p_failed (P_exited st) = (st \<noteq> 0)"
| "p_failed pc = False"

fun p_status_ok :: "parent_pc \<Rightarrow> bool" where
  "p_status_ok (P_exited st) = (st = 0 \<or> st = 1)"
| "p_status_ok pc = True"

fun w_unborn :: "writer_pc \<Rightarrow> bool" where
  "w_unborn W_unborn = True"
| "w_unborn pc = False"

fun r_unborn :: "reader_pc \<Rightarrow> bool" where
  "r_unborn R_unborn = True"
| "r_unborn pc = False"

fun w_done :: "writer_pc \<Rightarrow> bool" where
  "w_done (W_exited st) = (st = 0)"
| "w_done pc = False"

fun r_done :: "reader_pc \<Rightarrow> bool" where
  "r_done (R_exited st) = (st = 0)"
| "r_done pc = False"

fun w_exit_ok :: "writer_pc \<Rightarrow> bool" where
  "w_exit_ok (W_exited st) = (st = 0)"
| "w_exit_ok pc = True"

fun r_exit_ok :: "reader_pc \<Rightarrow> bool" where
  "r_exit_ok (R_exited st) = (st = 0)"
| "r_exit_ok pc = True"

definition first_failure :: "env \<Rightarrow> (string \<times> errno) option" where
  "first_failure e =
    (case shm_open_res e of Fail err \<Rightarrow> Some (''shm_open'', err) | Ok _ \<Rightarrow>
    (case ftruncate_res e of Fail err \<Rightarrow> Some (''ftruncate'', err) | Ok _ \<Rightarrow>
    (case mmap_res e of Fail err \<Rightarrow> Some (''mmap'', err) | Ok _ \<Rightarrow>
    (case fork1_res e of Fail err \<Rightarrow> Some (''fork'', err) | Ok _ \<Rightarrow>
    (case fork2_res e of Fail err \<Rightarrow> Some (''fork'', err) | Ok _ \<Rightarrow> None)))))"

fun is_perror :: "printed \<Rightarrow> bool" where
  "is_perror (Perror name err) = True"
| "is_perror x = False"

fun is_wrote :: "printed \<Rightarrow> bool" where
  "is_wrote (Child1_wrote n txt) = True"
| "is_wrote x = False"

fun is_read :: "printed \<Rightarrow> bool" where
  "is_read (Child2_read n txt) = True"
| "is_read x = False"

definition errors_printed :: "state \<Rightarrow> printed list" where
  "errors_printed s = filter is_perror (out s)"

definition writes_done :: "state \<Rightarrow> int" where
  "writes_done s = int (length (filter is_wrote (out s)))"

definition reads_done :: "state \<Rightarrow> int" where
  "reads_done s = int (length (filter is_read (out s)))"

fun ok :: "'a sysres \<Rightarrow> bool" where
  "ok (Ok v) = True"
| "ok (Fail err) = False"

definition passed :: "env \<Rightarrow> nat \<Rightarrow> bool" where
  "passed e n = ((0 < n \<longrightarrow> ok (shm_open_res e)) \<and>
                 (1 < n \<longrightarrow> ok (ftruncate_res e)) \<and>
                 (2 < n \<longrightarrow> ok (mmap_res e)) \<and>
                 (9 < n \<longrightarrow> ok (fork1_res e)) \<and>
                 (10 < n \<longrightarrow> ok (fork2_res e)))"

definition inv_parent :: "env \<Rightarrow> state \<Rightarrow> bool" where
  "inv_parent e s =
    ((parent_rank (p_pc s) \<le> 20 \<longrightarrow> passed e (parent_rank (p_pc s)) \<and> errors_printed s = []) \<and>
     (p_pc s = P_exited 0 \<longrightarrow> first_failure e = None \<and> errors_printed s = []) \<and>
     (p_pc s = P_exited 1 \<longrightarrow>
        (\<exists>name err. first_failure e = Some (name, err) \<and> errors_printed s = [Perror name err])) \<and>
     p_status_ok (p_pc s))"

definition inv_family :: "state \<Rightarrow> bool" where
  "inv_family s =
    ((parent_rank (p_pc s) \<le> 9 \<longrightarrow> w_unborn (w_pc s)) \<and>
     (parent_rank (p_pc s) \<le> 10 \<longrightarrow> r_unborn (r_pc s)) \<and>
     (9 < parent_rank (p_pc s) \<and> \<not> p_failed (p_pc s) \<longrightarrow> \<not> w_unborn (w_pc s)) \<and>
     (10 < parent_rank (p_pc s) \<and> \<not> p_failed (p_pc s) \<longrightarrow> \<not> r_unborn (r_pc s)) \<and>
     (12 < parent_rank (p_pc s) \<and> \<not> p_failed (p_pc s) \<longrightarrow> w_done (w_pc s)) \<and>
     (14 < parent_rank (p_pc s) \<and> \<not> p_failed (p_pc s) \<longrightarrow> r_done (r_pc s)) \<and>
     (p_failed (p_pc s) \<longrightarrow> r_unborn (r_pc s)) \<and>
     (p_unmapped s \<longrightarrow> 16 < parent_rank (p_pc s) \<and> \<not> p_failed (p_pc s)) \<and>
     (shm_unlinked s \<longrightarrow> 18 < parent_rank (p_pc s) \<and> \<not> p_failed (p_pc s)) \<and>
     w_exit_ok (w_pc s) \<and> r_exit_ok (r_pc s))"

definition inv_slot :: "state \<Rightarrow> bool" where
  "inv_slot s =
    (length (text_message (shm s)) = MAX_MSG_LEN \<and>
     (4 \<le> parent_rank (p_pc s) \<and> parent_rank (p_pc s) \<le> 9 \<longrightarrow> message_id (shm s) = 0) \<and>
     (5 \<le> parent_rank (p_pc s) \<and> parent_rank (p_pc s) \<le> 9 \<longrightarrow> ready (shm s) = 0) \<and>
     (6 \<le> parent_rank (p_pc s) \<and> parent_rank (p_pc s) \<le> 9 \<longrightarrow>
        text_message (shm s) = replicate MAX_MSG_LEN NUL) \<and>
     (\<not> w_unborn (w_pc s) \<longrightarrow>
        ready (shm s) = 0 \<and> null_terminated (text_message (shm s))))"

fun writer_ok :: "writer_pc \<Rightarrow> int \<Rightarrow> int \<Rightarrow> bool" where
  "writer_ok W_unborn i n = (n = 0)"
| "writer_ok W_say_started i n = (n = 0)"
| "writer_ok W_for_init i n = (n = 0)"
| "writer_ok W_for_test i n = (1 \<le> i \<and> i \<le> 6 \<and> n = i - 1)"
| "writer_ok W_set_id i n = (1 \<le> i \<and> i \<le> 5 \<and> n = i - 1)"
| "writer_ok W_snprintf i n = (1 \<le> i \<and> i \<le> 5 \<and> n = i - 1)"
| "writer_ok W_say_wrote i n = (1 \<le> i \<and> i \<le> 5 \<and> n = i - 1)"
| "writer_ok W_usleep i n = (1 \<le> i \<and> i \<le> 5 \<and> n = i)"
| "writer_ok W_for_incr i n = (1 \<le> i \<and> i \<le> 5 \<and> n = i)"
| "writer_ok pc i n = (i = 6 \<and> n = 5)"

fun reader_ok :: "reader_pc \<Rightarrow> int \<Rightarrow> int \<Rightarrow> bool" where
  "reader_ok R_unborn i n = (n = 0)"
| "reader_ok R_say_started i n = (n = 0)"
| "reader_ok R_for_init i n = (n = 0)"
| "reader_ok R_for_test i n = (1 \<le> i \<and> i \<le> 6 \<and> n = i - 1)"
| "reader_ok R_say_read i n = (1 \<le> i \<and> i \<le> 5 \<and> n = i - 1)"
| "reader_ok R_usleep i n = (1 \<le> i \<and> i \<le> 5 \<and> n = i)"
| "reader_ok R_for_incr i n = (1 \<le> i \<and> i \<le> 5 \<and> n = i)"
| "reader_ok pc i n = (i = 6 \<and> n = 5)"

definition inv_writer :: "state \<Rightarrow> bool" where
  "inv_writer s = writer_ok (w_pc s) (w_i s) (writes_done s)"

definition inv_reader :: "state \<Rightarrow> bool" where
  "inv_reader s = reader_ok (r_pc s) (r_i s) (reads_done s)"

definition parent_next :: "env \<Rightarrow> state \<Rightarrow> state" where
  "parent_next e s = (case parent_step e s of None \<Rightarrow> s | Some s' \<Rightarrow> s')"

definition writer_next :: "state \<Rightarrow> state" where
  "writer_next s = (case writer_step s of None \<Rightarrow> s | Some s' \<Rightarrow> s')"

definition reader_next :: "state \<Rightarrow> state" where
  "reader_next s = (case reader_step s of None \<Rightarrow> s | Some s' \<Rightarrow> s')"

definition inv_ctrl :: "env \<Rightarrow> state \<Rightarrow> bool" where
  "inv_ctrl e s = (inv_parent e s \<and> inv_family s \<and> inv_writer s \<and> inv_reader s)"

fun p_left :: "parent_pc \<Rightarrow> nat" where
  "p_left pc = 21 - parent_rank pc"

fun w_left :: "writer_pc \<Rightarrow> int \<Rightarrow> nat" where
  "w_left W_unborn i = 38"
| "w_left W_say_started i = 37"
| "w_left W_for_init i = 36"
| "w_left W_for_test i = 6 * nat (6 - i) + 5"
| "w_left W_set_id i = 6 * nat (5 - i) + 10"
| "w_left W_snprintf i = 6 * nat (5 - i) + 9"
| "w_left W_say_wrote i = 6 * nat (5 - i) + 8"
| "w_left W_usleep i = 6 * nat (5 - i) + 7"
| "w_left W_for_incr i = 6 * nat (5 - i) + 6"
| "w_left W_say_finished i = 4"
| "w_left W_munmap i = 3"
| "w_left W_close i = 2"
| "w_left W_exit i = 1"
| "w_left (W_exited st) i = 0"

fun r_left :: "reader_pc \<Rightarrow> int \<Rightarrow> nat" where
  "r_left R_unborn i = 28"
| "r_left R_say_started i = 27"
| "r_left R_for_init i = 26"
| "r_left R_for_test i = 4 * nat (6 - i) + 5"
| "r_left R_say_read i = 4 * nat (5 - i) + 8"
| "r_left R_usleep i = 4 * nat (5 - i) + 7"
| "r_left R_for_incr i = 4 * nat (5 - i) + 6"
| "r_left R_say_finished i = 4"
| "r_left R_munmap i = 3"
| "r_left R_close i = 2"
| "r_left R_exit i = 1"
| "r_left (R_exited st) i = 0"

definition remaining :: "state \<Rightarrow> nat" where
  "remaining s = p_left (p_pc s) + w_left (w_pc s) (w_i s) + r_left (r_pc s) (r_i s)"

definition quiescent :: "env \<Rightarrow> state \<Rightarrow> bool" where
  "quiescent e s = (step e Parent s = None \<and> step e Writer s = None \<and> step e Reader s = None)"

fun round_robin :: "nat \<Rightarrow> actor list" where
  "round_robin 0 = []"
| "round_robin (Suc n) = Parent # Writer # Reader # round_robin n"

section \<open>Concrete runs\<close>

text \<open>
  A run in which every call succeeds on a freshly created, zero-filled object, and three
  ways of scheduling it. Up to its first \<open>waitpid\<close> the parent takes 12 steps; the Writer
  takes 37 steps in all and the Reader 27; after the children the parent takes 9 more.
\<close>

definition fresh_region :: SharedMessage where
  "fresh_region = \<lparr> message_id = 0, text_message = replicate MAX_MSG_LEN NUL, ready = 0 \<rparr>"

definition env_ok :: env where
  "env_ok = \<lparr> shm_open_res = Ok 3, ftruncate_res = Ok (), mmap_res = Ok (),
     fork1_res = Ok 1001, fork2_res = Ok 1002, region0 = fresh_region \<rparr>"

definition sched_writer_first :: "actor list" where
  "sched_writer_first =
     replicate 12 Parent @ replicate 37 Writer @ replicate 27 Reader @ replicate 9 Parent"

definition sched_reader_first :: "actor list" where
  "sched_reader_first =
     replicate 12 Parent @ replicate 27 Reader @ replicate 37 Writer @ replicate 9 Parent"

text \<open>
  Runs in which a call fails (\<open>errno\<close> 11 is \<open>EAGAIN\<close>, 13 is \<open>EACCES\<close>), a run on an object
  that exists already and holds the last message of an earlier run, and the record as
  lines 85 to 87 leave it.
\<close>

definition env_fork2_fails :: env where
  "env_fork2_fails = env_ok\<lparr>fork2_res := Fail 11\<rparr>"

definition env_shm_open_fails :: env where
  "env_shm_open_fails = env_ok\<lparr>shm_open_res := Fail 13\<rparr>"

definition empty_slot :: SharedMessage where
  "empty_slot = \<lparr> message_id = 0, text_message = replicate MAX_MSG_LEN NUL, ready = 0 \<rparr>"

definition stale_region :: SharedMessage where
  "stale_region = \<lparr> message_id = 105, text_message = replicate MAX_MSG_LEN (CHR ''x''), ready = 1 \<rparr>"

definition env_stale :: env where
  "env_stale = env_ok\<lparr>region0 := stale_region\<rparr>"

text \<open>
  What a run shows of the handoff: the lines of the two children that report a message,
  in the order they were printed, and the identifiers and texts in them. Two prefixes of
  runs: up to the Reader's first \<open>printf\<close>, and up to the end of the body of the
  Writer's first iteration.
\<close>

definition handoffs :: "printed list \<Rightarrow> printed list" where
  "handoffs xs = filter (\<lambda>x. is_wrote x \<or> is_read x) xs"

fun read_id :: "printed \<Rightarrow> int option" where
  "read_id (Child2_read n txt) = Some n"
| "read_id x = None"

fun read_text :: "printed \<Rightarrow> string option" where
  "read_text (Child2_read n txt) = Some txt"
| "read_text x = None"

fun wrote_text :: "printed \<Rightarrow> string option" where
  "wrote_text (Child1_wrote n txt) = Some txt"
| "wrote_text x = None"

definition ids_read :: "state \<Rightarrow> int list" where
  "ids_read s = List.map_filter read_id (out s)"

definition texts_read :: "state \<Rightarrow> string list" where
  "texts_read s = List.map_filter read_text (out s)"

definition texts_written :: "state \<Rightarrow> string list" where
  "texts_written s = List.map_filter wrote_text (out s)"

definition sched_to_first_read :: "actor list" where
  "sched_to_first_read = replicate 12 Parent @ replicate 3 Reader"

definition sched_first_publish :: "actor list" where
  "sched_first_publish = replicate 12 Parent @ replicate 7 Writer"

section \<open>Proofs of the invariants\<close>

lemma say_fields [simp]:
  "shm (say x s) = shm s" "p_pc (say x s) = p_pc s" "w_pc (say x s) = w_pc s"
  "r_pc (say x s) = r_pc s" "shm_fd (say x s) = shm_fd s" "pid1 (say x s) = pid1 s"
  "pid2 (say x s) = pid2 s" "w_i (say x s) = w_i s" "r_i (say x s) = r_i s"
  "p_unmapped (say x s) = p_unmapped s" "shm_unlinked (say x s) = shm_unlinked s"
  "out (say x s) = out s @ [x]"
  by (simp_all add: say_def)

lemmas counters = errors_printed_def writes_done_def reads_done_def

lemmas next_defs = parent_next_def parent_step_def writer_next_def writer_step_def
  reader_next_def reader_step_def die_def

lemma inv_family_init: "inv_family (init e)"
  by (simp add: inv_family_def init_def)

lemma w_done_iff: "w_done pc \<longleftrightarrow> writer_terminated pc \<and> w_exit_ok pc"
  by (cases pc) simp_all

lemma r_done_iff: "r_done pc \<longleftrightarrow> reader_terminated pc \<and> r_exit_ok pc"
  by (cases pc) simp_all

lemma inv_family_parent:
  "inv_family s \<Longrightarrow> inv_family (parent_next e s)"
  by (cases "p_pc s")
     (simp_all add: next_defs inv_family_def w_done_iff r_done_iff split: sysres.split)

lemma inv_family_writer:
  "inv_family s \<Longrightarrow> inv_family (writer_next s)"
  by (cases "w_pc s") (auto simp: next_defs inv_family_def)

lemma inv_family_reader:
  "inv_family s \<Longrightarrow> inv_family (reader_next s)"
  by (cases "r_pc s") (auto simp: next_defs inv_family_def)

lemma inv_parent_init: "inv_parent e (init e)"
  by (simp add: inv_parent_def init_def passed_def counters)

lemma first_failure_None:
  "first_failure e = None \<longleftrightarrow> passed e 11"
  by (cases "shm_open_res e"; cases "ftruncate_res e"; cases "mmap_res e";
      cases "fork1_res e"; cases "fork2_res e")
     (simp_all add: first_failure_def passed_def)

lemma first_failure_shm_open:
  "shm_open_res e = Fail err \<Longrightarrow> first_failure e = Some (''shm_open'', err)"
  by (simp add: first_failure_def)

lemma first_failure_ftruncate:
  "passed e 1 \<Longrightarrow> ftruncate_res e = Fail err \<Longrightarrow> first_failure e = Some (''ftruncate'', err)"
  by (cases "shm_open_res e") (simp_all add: first_failure_def passed_def)

lemma first_failure_mmap:
  "passed e 2 \<Longrightarrow> mmap_res e = Fail err \<Longrightarrow> first_failure e = Some (''mmap'', err)"
  by (cases "shm_open_res e"; cases "ftruncate_res e") (simp_all add: first_failure_def passed_def)

lemma first_failure_fork1:
  "passed e 9 \<Longrightarrow> fork1_res e = Fail err \<Longrightarrow> first_failure e = Some (''fork'', err)"
  by (cases "shm_open_res e"; cases "ftruncate_res e"; cases "mmap_res e")
     (simp_all add: first_failure_def passed_def)

lemma first_failure_fork2:
  "passed e 10 \<Longrightarrow> fork2_res e = Fail err \<Longrightarrow> first_failure e = Some (''fork'', err)"
  by (cases "shm_open_res e"; cases "ftruncate_res e"; cases "mmap_res e"; cases "fork1_res e")
     (simp_all add: first_failure_def passed_def)

lemma inv_parent_parent:
  "inv_parent e s \<Longrightarrow> inv_parent e (parent_next e s)"
proof (cases "p_pc s")
  case P_shm_open
  then show "inv_parent e s \<Longrightarrow> inv_parent e (parent_next e s)"
    by (cases "shm_open_res e")
       (simp_all add: next_defs inv_parent_def counters passed_def first_failure_shm_open)
next
  case P_ftruncate
  then show "inv_parent e s \<Longrightarrow> inv_parent e (parent_next e s)"
    by (cases "ftruncate_res e")
       (simp_all add: next_defs inv_parent_def counters first_failure_ftruncate, simp add: passed_def)
next
  case P_mmap
  then show "inv_parent e s \<Longrightarrow> inv_parent e (parent_next e s)"
    by (cases "mmap_res e")
       (simp_all add: next_defs inv_parent_def counters first_failure_mmap, simp add: passed_def)
next
  case P_fork1
  then show "inv_parent e s \<Longrightarrow> inv_parent e (parent_next e s)"
    by (cases "fork1_res e")
       (simp_all add: next_defs inv_parent_def counters first_failure_fork1, simp add: passed_def)
next
  case P_fork2
  then show "inv_parent e s \<Longrightarrow> inv_parent e (parent_next e s)"
    by (cases "fork2_res e")
       (simp_all add: next_defs inv_parent_def counters first_failure_fork2, simp add: passed_def)
next
  case P_return
  then show "inv_parent e s \<Longrightarrow> inv_parent e (parent_next e s)"
    by (simp add: next_defs inv_parent_def counters first_failure_None passed_def)
qed (simp_all add: next_defs inv_parent_def counters passed_def)

lemma inv_parent_writer:
  "inv_parent e s \<Longrightarrow> inv_parent e (writer_next s)"
  by (cases "w_pc s") (simp_all add: next_defs inv_parent_def counters)

lemma inv_parent_reader:
  "inv_parent e s \<Longrightarrow> inv_parent e (reader_next s)"
  by (cases "r_pc s") (simp_all add: next_defs inv_parent_def counters)

lemma snprintf_length:
  "length buf = n \<Longrightarrow> length (snprintf buf n s) = n"
  by (auto simp: snprintf_def store_def snprintf_bytes_def)

lemma snprintf_null_terminated:
  "0 < n \<Longrightarrow> null_terminated (snprintf buf n s)"
  by (auto simp: snprintf_def store_def snprintf_bytes_def null_terminated_def)

lemma inv_slot_init:
  "length (text_message (region0 e)) = MAX_MSG_LEN \<Longrightarrow> inv_slot (init e)"
  by (simp add: inv_slot_def init_def)

lemma inv_slot_parent:
  "inv_slot s \<Longrightarrow> inv_family s \<Longrightarrow> inv_slot (parent_next e s)"
  by (cases "p_pc s")
     (auto simp: next_defs inv_slot_def inv_family_def memset_def MAX_MSG_LEN_def
        null_terminated_def split: sysres.split)

lemma inv_slot_writer:
  "inv_slot s \<Longrightarrow> inv_family s \<Longrightarrow> inv_slot (writer_next s)"
  by (cases "w_pc s")
     (auto simp: next_defs inv_slot_def inv_family_def snprintf_length snprintf_null_terminated
        MAX_MSG_LEN_def)

lemma inv_slot_reader:
  "inv_slot s \<Longrightarrow> inv_slot (reader_next s)"
  by (cases "r_pc s") (auto simp: next_defs inv_slot_def)

lemma w_unborn_iff: "w_unborn pc \<longleftrightarrow> pc = W_unborn"
  by (cases pc) simp_all

lemma r_unborn_iff: "r_unborn pc \<longleftrightarrow> pc = R_unborn"
  by (cases pc) simp_all

lemma inv_writer_init: "inv_writer (init e)"
  by (simp add: inv_writer_def init_def counters)

lemma inv_writer_parent:
  "inv_writer s \<Longrightarrow> inv_family s \<Longrightarrow> inv_writer (parent_next e s)"
  by (cases "p_pc s")
     (auto simp: next_defs inv_writer_def inv_family_def counters w_unborn_iff split: sysres.split)

lemma inv_writer_writer:
  "inv_writer s \<Longrightarrow> inv_writer (writer_next s)"
  by (cases "w_pc s") (auto simp: next_defs inv_writer_def counters)

lemma inv_writer_reader:
  "inv_writer s \<Longrightarrow> inv_writer (reader_next s)"
  by (cases "r_pc s") (auto simp: next_defs inv_writer_def counters)

lemma inv_reader_init: "inv_reader (init e)"
  by (simp add: inv_reader_def init_def counters)

lemma inv_reader_parent:
  "inv_reader s \<Longrightarrow> inv_family s \<Longrightarrow> inv_reader (parent_next e s)"
  by (cases "p_pc s")
     (auto simp: next_defs inv_reader_def inv_family_def counters r_unborn_iff split: sysres.split)

lemma inv_reader_writer:
  "inv_reader s \<Longrightarrow> inv_reader (writer_next s)"
  by (cases "w_pc s") (auto simp: next_defs inv_reader_def counters)

lemma inv_reader_reader:
  "inv_reader s \<Longrightarrow> inv_reader (reader_next s)"
  by (cases "r_pc s") (auto simp: next_defs inv_reader_def counters)

lemma step_or_stay_actor:
  "step_or_stay e Parent s = parent_next e s"
  "step_or_stay e Writer s = writer_next s"
  "step_or_stay e Reader s = reader_next s"
  by (simp_all add: step_or_stay_def step_def parent_next_def writer_next_def reader_next_def)

lemma inv_ctrl_init: "inv_ctrl e (init e)"
  by (simp add: inv_ctrl_def inv_parent_init inv_family_init inv_writer_init inv_reader_init)

lemma inv_ctrl_step: "inv_ctrl e s \<Longrightarrow> inv_ctrl e (step_or_stay e a s)"
  by (cases a)
     (simp_all add: inv_ctrl_def step_or_stay_actor
        inv_parent_parent inv_parent_writer inv_parent_reader
        inv_family_parent inv_family_writer inv_family_reader
        inv_writer_parent inv_writer_writer inv_writer_reader
        inv_reader_parent inv_reader_writer inv_reader_reader)

lemma inv_ctrl_run: "inv_ctrl e s \<Longrightarrow> inv_ctrl e (run e sched s)"
  by (induction sched arbitrary: s) (simp_all add: inv_ctrl_step)

lemma inv_slot_step: "inv_ctrl e s \<Longrightarrow> inv_slot s \<Longrightarrow> inv_slot (step_or_stay e a s)"
  by (cases a)
     (simp_all add: inv_ctrl_def step_or_stay_actor inv_slot_parent inv_slot_writer inv_slot_reader)

lemma inv_slot_run: "inv_ctrl e s \<Longrightarrow> inv_slot s \<Longrightarrow> inv_slot (run e sched s)"
  by (induction sched arbitrary: s) (simp_all add: inv_ctrl_step inv_slot_step)

lemma parent_decreases:
  "inv_family s \<Longrightarrow> parent_step e s = Some s' \<Longrightarrow> remaining s' < remaining s"
  by (cases "p_pc s")
     (auto simp: parent_step_def die_def remaining_def inv_family_def w_unborn_iff r_unborn_iff
        split: sysres.splits if_splits)

lemma writer_decreases:
  "writer_step s = Some s' \<Longrightarrow> remaining s' < remaining s"
  by (cases "w_pc s") (auto simp: writer_step_def remaining_def)

lemma reader_decreases:
  "reader_step s = Some s' \<Longrightarrow> remaining s' < remaining s"
  by (cases "r_pc s") (auto simp: reader_step_def remaining_def)

lemma step_decreases:
  "inv_ctrl e s \<Longrightarrow> step e a s = Some s' \<Longrightarrow> remaining s' < remaining s"
  by (cases a)
     (simp_all add: step_def inv_ctrl_def parent_decreases writer_decreases reader_decreases)

lemma step_or_stay_le: "inv_ctrl e s \<Longrightarrow> remaining (step_or_stay e a s) \<le> remaining s"
  by (cases "step e a s") (auto simp: step_or_stay_def dest: step_decreases)

lemma step_or_stay_less:
  "inv_ctrl e s \<Longrightarrow> step e a s \<noteq> None \<Longrightarrow> remaining (step_or_stay e a s) < remaining s"
  by (cases "step e a s") (auto simp: step_or_stay_def dest: step_decreases)

lemma run_le: "inv_ctrl e s \<Longrightarrow> remaining (run e sched s) \<le> remaining s"
proof (induction sched arbitrary: s)
  case Nil
  show ?case by simp
next
  case (Cons a sched)
  have "remaining (run e sched (step_or_stay e a s)) \<le> remaining (step_or_stay e a s)"
    using Cons.prems by (intro Cons.IH inv_ctrl_step)
  also have "\<dots> \<le> remaining s" using Cons.prems by (rule step_or_stay_le)
  finally show ?case by simp
qed

lemma parent_enabled:
  "parent_step e s = None \<longleftrightarrow>
     parent_rank (p_pc s) = 21 \<or> (p_pc s = P_wait1 \<and> \<not> writer_terminated (w_pc s)) \<or>
     (p_pc s = P_wait2 \<and> \<not> reader_terminated (r_pc s))"
  by (cases "p_pc s") (simp_all add: parent_step_def die_def split: sysres.split)

lemma writer_enabled:
  "writer_step s = None \<longleftrightarrow> w_unborn (w_pc s) \<or> writer_terminated (w_pc s)"
  by (cases "w_pc s") (simp_all add: writer_step_def)

lemma reader_enabled:
  "reader_step s = None \<longleftrightarrow> r_unborn (r_pc s) \<or> reader_terminated (r_pc s)"
  by (cases "r_pc s") (simp_all add: reader_step_def)

lemma quiescent_parent_exited:
  assumes "inv_ctrl e s" and "quiescent e s"
  shows "parent_rank (p_pc s) = 21"
proof -
  have fam: "inv_family s" using assms(1) by (simp add: inv_ctrl_def)
  have w: "w_unborn (w_pc s) \<or> writer_terminated (w_pc s)"
    using assms(2) by (simp add: quiescent_def step_def writer_enabled)
  have r: "r_unborn (r_pc s) \<or> reader_terminated (r_pc s)"
    using assms(2) by (simp add: quiescent_def step_def reader_enabled)
  have p: "parent_rank (p_pc s) = 21 \<or> (p_pc s = P_wait1 \<and> \<not> writer_terminated (w_pc s)) \<or>
     (p_pc s = P_wait2 \<and> \<not> reader_terminated (r_pc s))"
    using assms(2) by (simp add: quiescent_def step_def parent_enabled)
  have "\<not> (p_pc s = P_wait1 \<and> \<not> writer_terminated (w_pc s))"
  proof
    assume a: "p_pc s = P_wait1 \<and> \<not> writer_terminated (w_pc s)"
    then have "\<not> w_unborn (w_pc s)" using fam by (simp add: inv_family_def)
    then show False using w a by simp
  qed
  moreover have "\<not> (p_pc s = P_wait2 \<and> \<not> reader_terminated (r_pc s))"
  proof
    assume a: "p_pc s = P_wait2 \<and> \<not> reader_terminated (r_pc s)"
    then have "\<not> r_unborn (r_pc s)" using fam by (simp add: inv_family_def)
    then show False using r a by simp
  qed
  ultimately show ?thesis using p by blast
qed

lemma rank_21: "parent_rank pc = 21 \<longleftrightarrow> (\<exists>st. pc = P_exited st)"
  by (cases pc) simp_all

lemma round_progress:
  assumes "inv_ctrl e s"
  shows "quiescent e s \<or> remaining (run e [Parent, Writer, Reader] s) < remaining s"
proof (cases "quiescent e s")
  case True
  then show ?thesis by simp
next
  case False
  let ?s1 = "step_or_stay e Parent s"
  let ?s2 = "step_or_stay e Writer ?s1"
  let ?s3 = "step_or_stay e Reader ?s2"
  have i1: "inv_ctrl e ?s1" using assms by (rule inv_ctrl_step)
  have i2: "inv_ctrl e ?s2" using i1 by (rule inv_ctrl_step)
  have l1: "remaining ?s1 \<le> remaining s" using assms by (rule step_or_stay_le)
  have l2: "remaining ?s2 \<le> remaining ?s1" using i1 by (rule step_or_stay_le)
  have l3: "remaining ?s3 \<le> remaining ?s2" using i2 by (rule step_or_stay_le)
  have "remaining ?s3 < remaining s"
  proof (cases "step e Parent s = None")
    case pn: True
    then have s1: "?s1 = s" by (simp add: step_or_stay_def)
    show ?thesis
    proof (cases "step e Writer s = None")
      case wn: True
      then have s2: "?s2 = s" using s1 by (simp add: step_or_stay_def)
      have "step e Reader s \<noteq> None" using False pn wn by (simp add: quiescent_def)
      then have "remaining (step_or_stay e Reader s) < remaining s"
        using assms by (intro step_or_stay_less)
      then show ?thesis using s2 by simp
    next
      case False
      then have "remaining (step_or_stay e Writer s) < remaining s"
        using assms by (intro step_or_stay_less)
      then show ?thesis using s1 l3 by simp
    qed
  next
    case False
    then have "remaining ?s1 < remaining s" using assms by (intro step_or_stay_less)
    then show ?thesis using l2 l3 by linarith
  qed
  then show ?thesis by simp
qed

lemma quiescent_stay: "quiescent e s \<Longrightarrow> step_or_stay e a s = s"
  by (cases a) (simp_all add: quiescent_def step_or_stay_def)

lemma quiescent_stays: "quiescent e s \<Longrightarrow> run e sched s = s"
  by (induction sched) (simp_all add: quiescent_stay)

lemma round_robin_quiescent:
  "inv_ctrl e s \<Longrightarrow> remaining s \<le> n \<Longrightarrow> quiescent e (run e (round_robin n) s)"
proof (induction n arbitrary: s)
  case 0
  have "quiescent e s \<or> remaining (run e [Parent, Writer, Reader] s) < remaining s"
    using "0.prems"(1) by (rule round_progress)
  then show ?case using "0.prems"(2) by simp
next
  case (Suc n)
  let ?t = "run e [Parent, Writer, Reader] s"
  have it: "inv_ctrl e ?t" using Suc.prems(1) by (rule inv_ctrl_run)
  have split: "run e (round_robin (Suc n)) s = run e (round_robin n) ?t" by simp
  show ?case
  proof (cases "quiescent e s")
    case True
    then show ?thesis by (simp only: quiescent_stays)
  next
    case False
    then have "remaining ?t < remaining s" using round_progress [OF Suc.prems(1)] by blast
    then have "remaining ?t \<le> n" using Suc.prems(2) by simp
    then have "quiescent e (run e (round_robin n) ?t)" using it by (intro Suc.IH)
    then show ?thesis by (simp only: split)
  qed
qed

lemma run_append: "run e (xs @ ys) s = run e ys (run e xs s)"
  by (induction xs arbitrary: s) simp_all

lemma remaining_init: "remaining (init e) = 87"
  by (simp add: remaining_def init_def)

lemma w_done_eq: "w_done pc \<longleftrightarrow> pc = W_exited 0"
  by (cases pc) auto

lemma r_done_eq: "r_done pc \<longleftrightarrow> pc = R_exited 0"
  by (cases pc) auto

lemma reachable_inv_ctrl: "inv_ctrl e (run e sched (init e))"
  by (rule inv_ctrl_run) (rule inv_ctrl_init)

lemma quiescent_after_rounds:
  "quiescent e (run e (sched @ round_robin 87) (init e))"
proof -
  let ?s = "run e sched (init e)"
  have i: "inv_ctrl e ?s" by (rule reachable_inv_ctrl)
  have "remaining ?s \<le> remaining (init e)" by (rule run_le) (rule inv_ctrl_init)
  then have "remaining ?s \<le> 87" by (simp add: remaining_init)
  then have "quiescent e (run e (round_robin 87) ?s)" using i by (intro round_robin_quiescent)
  then show ?thesis by (simp add: run_append)
qed

lemma exited_status:
  assumes "inv_ctrl e s" and "parent_rank (p_pc s) = 21"
  shows "(first_failure e = None \<longrightarrow> p_pc s = P_exited 0 \<and> errors_printed s = []) \<and>
         (\<forall>name err. first_failure e = Some (name, err) \<longrightarrow>
            p_pc s = P_exited 1 \<and> errors_printed s = [Perror name err])"
proof -
  obtain st where st: "p_pc s = P_exited st" using assms(2) by (auto simp: rank_21)
  have par: "inv_parent e s" using assms(1) by (simp add: inv_ctrl_def)
  then have "st = 0 \<or> st = 1" using st by (simp add: inv_parent_def)
  then show ?thesis
  proof
    assume "st = 0"
    then show ?thesis using par st by (simp add: inv_parent_def)
  next
    assume "st = 1"
    then show ?thesis using par st by (auto simp: inv_parent_def)
  qed
qed

lemma success_children_done:
  assumes "inv_ctrl e s" and "p_pc s = P_exited 0"
  shows "w_pc s = W_exited 0 \<and> r_pc s = R_exited 0 \<and> writes_done s = 5 \<and> reads_done s = 5
         \<and> w_i s = 6 \<and> r_i s = 6"
proof -
  have fam: "inv_family s" and w: "inv_writer s" and r: "inv_reader s"
    using assms(1) by (simp_all add: inv_ctrl_def)
  have wd: "w_pc s = W_exited 0" and rd: "r_pc s = R_exited 0"
    using fam assms(2) by (simp_all add: inv_family_def w_done_eq r_done_eq)
  show ?thesis using w r wd rd by (simp add: inv_writer_def inv_reader_def)
qed

lemma reachable_inv_slot:
  "length (text_message (region0 e)) = MAX_MSG_LEN \<Longrightarrow> inv_slot (run e sched (init e))"
  by (intro inv_slot_run inv_ctrl_init inv_slot_init)

lemma rank_6_9:
  "pc \<in> {P_say_created, P_say_mapped, P_say_flag, P_fork1} \<Longrightarrow>
     6 \<le> parent_rank pc \<and> parent_rank pc \<le> 9"
  by auto

lemma rank_upto_9:
  "pc \<in> {P_shm_open, P_ftruncate, P_mmap, P_init_id, P_init_ready, P_memset,
           P_say_created, P_say_mapped, P_say_flag, P_fork1} \<Longrightarrow> parent_rank pc \<le> 9"
  by auto

lemma takeWhile_stop: "x \<notin> set s \<Longrightarrow> takeWhile (\<lambda>c. c \<noteq> x) (s @ x # r) = s"
  by (induction s) auto

lemma c_string_snprintf:
  "NUL \<notin> set s \<Longrightarrow> length s < n \<Longrightarrow> c_string (snprintf buf n s) = s"
  by (simp add: c_string_def snprintf_def store_def snprintf_bytes_def takeWhile_stop)

lemma small_int_cases: "1 \<le> i \<Longrightarrow> i \<le> 5 \<Longrightarrow> i = 1 \<or> i = 2 \<or> i = 3 \<or> i = 4 \<or> i = (5::int)"
  by arith

lemma show_int_digit:
  "show_int 1 = ''1''" "show_int 2 = ''2''" "show_int 3 = ''3''" "show_int 4 = ''4''"
  "show_int 5 = ''5''"
  by (simp_all add: show_int_def digit_char_def)

lemma writer_format_small:
  assumes "1 \<le> i" and "i \<le> 5"
  shows "length (writer_format i) = 42 \<and> NUL \<notin> set (writer_format i)"
proof -
  have "i = 1 \<or> i = 2 \<or> i = 3 \<or> i = 4 \<or> i = 5" using assms by (rule small_int_cases)
  then show ?thesis
    by (elim disjE) (simp_all add: writer_format_def show_int_digit NUL_def)
qed

lemma align_up_bounds:
  assumes "0 < a"
  shows "n \<le> align_up n a \<and> align_up n a < n + a"
proof -
  have eq: "(n + a - 1) div a * a + (n + a - 1) mod a = n + a - 1" by simp
  have "(n + a - 1) mod a < a" using assms by simp
  then show ?thesis unfolding align_up_def using eq assms by linarith
qed

section \<open>The claims\<close>

text \<open>
  C1 (alternation): the write of message \<open>k\<close> is ordered before the read of message \<open>k\<close>,
  which is ordered before the write of message \<open>k + 1\<close>, so no message is skipped or
  read twice. The loops hold no wait on the flag (the places are marked TODO at lines
  106, 119, 144 and 152). In the run where the Writer is scheduled before the Reader,
  the Writer writes all five messages first and the Reader then reads message 5 five
  times: messages 1 to 4 are skipped and message 5 is duplicated.
\<close>

theorem writer_first_breaks_alternation:
  "handoffs (out (run env_ok sched_writer_first (init env_ok))) =
     [Child1_wrote 101 ''Message from Child 1 (writer), iteration 1'',
      Child1_wrote 102 ''Message from Child 1 (writer), iteration 2'',
      Child1_wrote 103 ''Message from Child 1 (writer), iteration 3'',
      Child1_wrote 104 ''Message from Child 1 (writer), iteration 4'',
      Child1_wrote 105 ''Message from Child 1 (writer), iteration 5'',
      Child2_read 105 ''Message from Child 1 (writer), iteration 5'',
      Child2_read 105 ''Message from Child 1 (writer), iteration 5'',
      Child2_read 105 ''Message from Child 1 (writer), iteration 5'',
      Child2_read 105 ''Message from Child 1 (writer), iteration 5'',
      Child2_read 105 ''Message from Child 1 (writer), iteration 5'']"
  by code_simp

text \<open>
  C2 (ownership): the Reader reads the identifier and the text only while the flag is 1.
  In the run where the Reader is scheduled first, the Reader is at its \<open>printf\<close> of line
  149 while the flag is 0, the \<open>printf\<close> is enabled, and it reads identifier 0 and the
  empty text that the parent's initialisation left.
\<close>

theorem reader_reads_while_flag_is_empty:
  "r_pc (run env_ok sched_to_first_read (init env_ok)) = R_say_read \<and>
   ready (shm (run env_ok sched_to_first_read (init env_ok))) = 0 \<and>
   map_option handoffs (map_option out
     (step env_ok Reader (run env_ok sched_to_first_read (init env_ok)))) =
     Some [Child2_read 0 '''']"
  by code_simp

text \<open>
  C3 (publish and release): after writing the identifier and the text the Writer sets
  the flag to 1. At the end of the body of the Writer's first iteration, message 101
  is in the record and the flag is still 0; it is still 0 when all three processes have
  terminated.
\<close>

theorem writer_leaves_flag_empty:
  "w_pc (run env_ok sched_first_publish (init env_ok)) = W_for_incr \<and>
   message_id (shm (run env_ok sched_first_publish (init env_ok))) = 101 \<and>
   c_string (text_message (shm (run env_ok sched_first_publish (init env_ok)))) =
     ''Message from Child 1 (writer), iteration 1'' \<and>
   ready (shm (run env_ok sched_first_publish (init env_ok))) = 0 \<and>
   p_pc (run env_ok sched_writer_first (init env_ok)) = P_exited 0 \<and>
   ready (shm (run env_ok sched_writer_first (init env_ok))) = 0"
  by code_simp

text \<open>
  C4 (monotonic identifiers): the Reader observes the identifiers 101, 102, 103, 104,
  105 in that order. In the run where the Reader is scheduled before the Writer it
  observes 0 five times.
\<close>

theorem reader_first_sees_zero_ids:
  "ids_read (run env_ok sched_reader_first (init env_ok)) = [0, 0, 0, 0, 0]"
  by code_simp

text \<open>
  C5 (payload integrity): the text the Reader reads for message \<open>k\<close> is the text the
  Writer wrote for message \<open>k\<close>. In the run where the Reader is scheduled before the
  Writer, each of its five reads yields the empty text, while the Writer's five texts
  are the formatted ones.
\<close>

theorem reader_first_sees_empty_texts:
  "texts_read (run env_ok sched_reader_first (init env_ok)) = ['''', '''', '''', '''', ''''] \<and>
   texts_written (run env_ok sched_reader_first (init env_ok)) =
     [''Message from Child 1 (writer), iteration 1'',
      ''Message from Child 1 (writer), iteration 2'',
      ''Message from Child 1 (writer), iteration 3'',
      ''Message from Child 1 (writer), iteration 4'',
      ''Message from Child 1 (writer), iteration 5'']"
  by code_simp

text \<open>
  C6 (completion): both loops are bounded \<open>for\<close> loops with no wait in their bodies, so
  both children terminate after exactly 5 iterations whatever the other process does,
  and the parent's two \<open>waitpid\<close> calls return. For a run \<open>s\<close> in which every setup call
  succeeds: each step of any process decreases the number of steps that remain; a state
  in which no process can step is one where the parent has returned 0; a child that has
  terminated has left its loop with counter 6 after printing 5 lines; the parent is
  past a \<open>waitpid\<close> only when that child has exited with status 0. Continuing \<open>s\<close> by
  offering every process a step in turn, 87 times, reaches the state \<open>t\<close> where all
  three processes have terminated with status 0.
\<close>

theorem both_roles_terminate:
  assumes "first_failure e = None"
    and "s = run e sched (init e)"
    and "t = run e (sched @ round_robin 87) (init e)"
  shows "(\<forall>a s'. step e a s = Some s' \<longrightarrow> remaining s' < remaining s) \<and>
         (quiescent e s \<longrightarrow> p_pc s = P_exited 0) \<and>
         (writer_terminated (w_pc s) \<longrightarrow> w_pc s = W_exited 0 \<and> w_i s = 6 \<and> writes_done s = 5) \<and>
         (reader_terminated (r_pc s) \<longrightarrow> r_pc s = R_exited 0 \<and> r_i s = 6 \<and> reads_done s = 5) \<and>
         (12 < parent_rank (p_pc s) \<longrightarrow> w_pc s = W_exited 0) \<and>
         (14 < parent_rank (p_pc s) \<longrightarrow> r_pc s = R_exited 0) \<and>
         quiescent e t \<and> p_pc t = P_exited 0 \<and> w_pc t = W_exited 0 \<and> r_pc t = R_exited 0 \<and>
         w_i t = 6 \<and> writes_done t = 5 \<and> r_i t = 6 \<and> reads_done t = 5"
proof -
  have inv_s: "inv_ctrl e s" unfolding assms(2) by (rule reachable_inv_ctrl)
  have inv_t: "inv_ctrl e t" unfolding assms(3) by (rule reachable_inv_ctrl)
  have qt: "quiescent e t" unfolding assms(3) by (rule quiescent_after_rounds)
  have fam: "inv_family s" and w: "inv_writer s" and r: "inv_reader s" and par: "inv_parent e s"
    using inv_s by (simp_all add: inv_ctrl_def)
  have nofail: "\<not> p_failed (p_pc s)"
  proof (cases "p_pc s")
    case (P_exited st)
    then show ?thesis using par assms(1) by (auto simp: inv_parent_def)
  qed simp_all
  have 1: "\<forall>a s'. step e a s = Some s' \<longrightarrow> remaining s' < remaining s"
    using inv_s by (blast intro: step_decreases)
  have 2: "quiescent e s \<longrightarrow> p_pc s = P_exited 0"
  proof
    assume "quiescent e s"
    then have "parent_rank (p_pc s) = 21" using inv_s by (intro quiescent_parent_exited)
    then show "p_pc s = P_exited 0" using exited_status [OF inv_s] assms(1) by simp
  qed
  have 3: "writer_terminated (w_pc s) \<longrightarrow> w_pc s = W_exited 0 \<and> w_i s = 6 \<and> writes_done s = 5"
  proof
    assume "writer_terminated (w_pc s)"
    then have "w_pc s = W_exited 0" using fam by (simp add: inv_family_def w_done_iff w_done_eq [symmetric])
    then show "w_pc s = W_exited 0 \<and> w_i s = 6 \<and> writes_done s = 5"
      using w by (simp add: inv_writer_def)
  qed
  have 4: "reader_terminated (r_pc s) \<longrightarrow> r_pc s = R_exited 0 \<and> r_i s = 6 \<and> reads_done s = 5"
  proof
    assume "reader_terminated (r_pc s)"
    then have "r_pc s = R_exited 0" using fam by (simp add: inv_family_def r_done_iff r_done_eq [symmetric])
    then show "r_pc s = R_exited 0 \<and> r_i s = 6 \<and> reads_done s = 5"
      using r by (simp add: inv_reader_def)
  qed
  have 5: "12 < parent_rank (p_pc s) \<longrightarrow> w_pc s = W_exited 0"
    using fam nofail by (simp add: inv_family_def w_done_eq)
  have 6: "14 < parent_rank (p_pc s) \<longrightarrow> r_pc s = R_exited 0"
    using fam nofail by (simp add: inv_family_def r_done_eq)
  have "parent_rank (p_pc t) = 21" using inv_t qt by (rule quiescent_parent_exited)
  then have pt: "p_pc t = P_exited 0" using exited_status [OF inv_t] assms(1) by simp
  have 7: "w_pc t = W_exited 0 \<and> r_pc t = R_exited 0 \<and> writes_done t = 5 \<and> reads_done t = 5
         \<and> w_i t = 6 \<and> r_i t = 6"
    using inv_t pt by (rule success_children_done)
  show ?thesis using 1 2 3 4 5 6 7 qt pt by blast
qed

theorem both_roles_terminate_witness:
  "first_failure env_ok = None \<and>
   p_pc (run env_ok (sched_reader_first @ round_robin 87) (init env_ok)) = P_exited 0 \<and>
   w_pc (run env_ok (sched_reader_first @ round_robin 87) (init env_ok)) = W_exited 0 \<and>
   r_pc (run env_ok (sched_reader_first @ round_robin 87) (init env_ok)) = R_exited 0 \<and>
   writes_done (run env_ok (sched_reader_first @ round_robin 87) (init env_ok)) = 5 \<and>
   reads_done (run env_ok (sched_reader_first @ round_robin 87) (init env_ok)) = 5"
proof -
  have h: "first_failure env_ok = None"
    by (simp add: first_failure_def env_ok_def)
  show ?thesis
    using h both_roles_terminate [OF h refl refl, where sched = sched_reader_first] by blast
qed

text \<open>
  C7 (lifecycle): in every run on a region whose text buffer has \<open>MAX_MSG_LEN\<close> bytes,
  whatever they hold at the start: while the parent is between its initialisation and
  its first \<open>fork\<close> the record is the empty slot (identifier 0, flag 0, text all NUL);
  no child exists while the parent has not passed its first \<open>fork\<close>, and the Reader does
  not exist before the second; once the parent has called \<open>munmap\<close> or \<open>shm_unlink\<close>,
  both children have exited with status 0.
\<close>

theorem slot_initialised_before_children:
  assumes "length (text_message (region0 e)) = MAX_MSG_LEN"
    and "s = run e sched (init e)"
  shows "(p_pc s \<in> {P_say_created, P_say_mapped, P_say_flag, P_fork1} \<longrightarrow> shm s = empty_slot) \<and>
         (p_pc s \<in> {P_shm_open, P_ftruncate, P_mmap, P_init_id, P_init_ready, P_memset,
                      P_say_created, P_say_mapped, P_say_flag, P_fork1} \<longrightarrow>
            w_pc s = W_unborn \<and> r_pc s = R_unborn) \<and>
         (p_pc s = P_fork2 \<longrightarrow> r_pc s = R_unborn) \<and>
         (p_unmapped s \<or> shm_unlinked s \<longrightarrow> w_pc s = W_exited 0 \<and> r_pc s = R_exited 0)"
proof -
  have ctrl: "inv_ctrl e s" unfolding assms(2) by (rule reachable_inv_ctrl)
  then have fam: "inv_family s" by (simp add: inv_ctrl_def)
  have slot: "inv_slot s" unfolding assms(2) using assms(1) by (rule reachable_inv_slot)
  have 1: "p_pc s \<in> {P_say_created, P_say_mapped, P_say_flag, P_fork1} \<longrightarrow> shm s = empty_slot"
  proof
    assume "p_pc s \<in> {P_say_created, P_say_mapped, P_say_flag, P_fork1}"
    then have "6 \<le> parent_rank (p_pc s) \<and> parent_rank (p_pc s) \<le> 9" by (rule rank_6_9)
    then have "message_id (shm s) = 0 \<and> ready (shm s) = 0 \<and>
        text_message (shm s) = replicate MAX_MSG_LEN NUL"
      using slot by (simp add: inv_slot_def)
    then show "shm s = empty_slot" by (simp add: empty_slot_def)
  qed
  have 2: "p_pc s \<in> {P_shm_open, P_ftruncate, P_mmap, P_init_id, P_init_ready, P_memset,
                      P_say_created, P_say_mapped, P_say_flag, P_fork1} \<longrightarrow>
            w_pc s = W_unborn \<and> r_pc s = R_unborn"
  proof
    assume "p_pc s \<in> {P_shm_open, P_ftruncate, P_mmap, P_init_id, P_init_ready, P_memset,
                      P_say_created, P_say_mapped, P_say_flag, P_fork1}"
    then have "parent_rank (p_pc s) \<le> 9" by (rule rank_upto_9)
    then show "w_pc s = W_unborn \<and> r_pc s = R_unborn"
      using fam by (simp add: inv_family_def w_unborn_iff r_unborn_iff)
  qed
  have 3: "p_pc s = P_fork2 \<longrightarrow> r_pc s = R_unborn"
    using fam by (simp add: inv_family_def r_unborn_iff)
  have 4: "p_unmapped s \<or> shm_unlinked s \<longrightarrow> w_pc s = W_exited 0 \<and> r_pc s = R_exited 0"
  proof
    assume "p_unmapped s \<or> shm_unlinked s"
    then have "16 < parent_rank (p_pc s) \<and> \<not> p_failed (p_pc s)"
      using fam by (auto simp: inv_family_def)
    then show "w_pc s = W_exited 0 \<and> r_pc s = R_exited 0"
      using fam by (simp add: inv_family_def w_done_eq r_done_eq)
  qed
  show ?thesis using 1 2 3 4 by blast
qed

theorem slot_initialised_before_children_witness:
  "length (text_message (region0 env_stale)) = MAX_MSG_LEN \<and>
   p_pc (run env_stale (replicate 9 Parent) (init env_stale)) = P_fork1 \<and>
   shm (run env_stale (replicate 9 Parent) (init env_stale)) = empty_slot \<and>
   w_pc (run env_stale (replicate 9 Parent) (init env_stale)) = W_unborn \<and>
   r_pc (run env_stale (replicate 9 Parent) (init env_stale)) = R_unborn \<and>
   shm_unlinked (run env_stale sched_writer_first (init env_stale)) \<and>
   w_pc (run env_stale sched_writer_first (init env_stale)) = W_exited 0 \<and>
   r_pc (run env_stale sched_writer_first (init env_stale)) = R_exited 0"
proof -
  have len: "length (text_message (region0 env_stale)) = MAX_MSG_LEN"
    by (simp add: env_stale_def stale_region_def)
  have pc: "p_pc (run env_stale (replicate 9 Parent) (init env_stale)) = P_fork1"
    by code_simp
  have un: "shm_unlinked (run env_stale sched_writer_first (init env_stale))"
    by code_simp
  note th = slot_initialised_before_children [OF len refl]
  have a: "shm (run env_stale (replicate 9 Parent) (init env_stale)) = empty_slot"
    using th [where sched = "replicate 9 Parent", THEN conjunct1] pc by simp
  have b: "w_pc (run env_stale (replicate 9 Parent) (init env_stale)) = W_unborn \<and>
           r_pc (run env_stale (replicate 9 Parent) (init env_stale)) = R_unborn"
    using th [where sched = "replicate 9 Parent", THEN conjunct2, THEN conjunct1] pc by simp
  have c: "w_pc (run env_stale sched_writer_first (init env_stale)) = W_exited 0 \<and>
           r_pc (run env_stale sched_writer_first (init env_stale)) = R_exited 0"
    using th [where sched = sched_writer_first, THEN conjunct2, THEN conjunct2, THEN conjunct2] un
    by simp
  show ?thesis using len pc un a b c by simp
qed

text \<open>
  C8 (exit status): \<open>first_failure\<close> is the first of \<open>shm_open\<close>, \<open>ftruncate\<close>, \<open>mmap\<close>,
  \<open>fork\<close>, \<open>fork\<close> that fails, with its \<open>errno\<close>. Continuing any run \<open>s\<close> by offering
  every process a step in turn, 87 times, the parent has terminated: with status 0 and
  no \<open>perror\<close> line when no call fails, and with status 1 after exactly one \<open>perror\<close>
  line that names the failing call and carries its \<open>errno\<close> when one does. In every
  state of a run, a parent that has terminated with status 0 saw every call succeed, a
  nonzero status is 1 and comes with that \<open>perror\<close> line, and a parent that has not
  terminated has printed no \<open>perror\<close> line.
\<close>

theorem main_exit_status:
  assumes "s = run e sched (init e)"
    and "t = run e (sched @ round_robin 87) (init e)"
  shows "(first_failure e = None \<longrightarrow> p_pc t = P_exited 0 \<and> errors_printed t = []) \<and>
         (\<forall>name err. first_failure e = Some (name, err) \<longrightarrow>
            p_pc t = P_exited 1 \<and> errors_printed t = [Perror name err]) \<and>
         (p_pc s = P_exited 0 \<longrightarrow> first_failure e = None \<and> errors_printed s = []) \<and>
         (\<forall>st. p_pc s = P_exited st \<and> st \<noteq> 0 \<longrightarrow>
            st = 1 \<and> (\<exists>name err. first_failure e = Some (name, err) \<and>
                                   errors_printed s = [Perror name err])) \<and>
         (parent_rank (p_pc s) \<le> 20 \<longrightarrow> errors_printed s = [])"
proof -
  have inv_s: "inv_ctrl e s" unfolding assms(1) by (rule reachable_inv_ctrl)
  have inv_t: "inv_ctrl e t" unfolding assms(2) by (rule reachable_inv_ctrl)
  have "quiescent e t" unfolding assms(2) by (rule quiescent_after_rounds)
  then have "parent_rank (p_pc t) = 21" using inv_t by (intro quiescent_parent_exited)
  then have 1: "(first_failure e = None \<longrightarrow> p_pc t = P_exited 0 \<and> errors_printed t = []) \<and>
         (\<forall>name err. first_failure e = Some (name, err) \<longrightarrow>
            p_pc t = P_exited 1 \<and> errors_printed t = [Perror name err])"
    using inv_t by (intro exited_status)
  have par: "inv_parent e s" using inv_s by (simp add: inv_ctrl_def)
  have 2: "p_pc s = P_exited 0 \<longrightarrow> first_failure e = None \<and> errors_printed s = []"
    using par by (simp add: inv_parent_def)
  have 3: "\<forall>st. p_pc s = P_exited st \<and> st \<noteq> 0 \<longrightarrow>
            st = 1 \<and> (\<exists>name err. first_failure e = Some (name, err) \<and>
                                   errors_printed s = [Perror name err])"
  proof (intro allI impI)
    fix st
    assume a: "p_pc s = P_exited st \<and> st \<noteq> 0"
    then have "p_status_ok (P_exited st)" using par by (simp add: inv_parent_def)
    then have st: "st = 1" using a by simp
    then have "p_pc s = P_exited 1" using a by simp
    then have "\<exists>name err. first_failure e = Some (name, err) \<and> errors_printed s = [Perror name err]"
      using par by (simp add: inv_parent_def)
    then show "st = 1 \<and> (\<exists>name err. first_failure e = Some (name, err) \<and>
                                   errors_printed s = [Perror name err])"
      using st by simp
  qed
  have 4: "parent_rank (p_pc s) \<le> 20 \<longrightarrow> errors_printed s = []"
    using par by (simp add: inv_parent_def)
  show ?thesis using 1 2 3 4 by blast
qed

theorem main_exit_status_witness:
  "first_failure env_fork2_fails = Some (''fork'', 11) \<and>
   p_pc (run env_fork2_fails (round_robin 87) (init env_fork2_fails)) = P_exited 1 \<and>
   errors_printed (run env_fork2_fails (round_robin 87) (init env_fork2_fails)) = [Perror ''fork'' 11] \<and>
   first_failure env_shm_open_fails = Some (''shm_open'', 13) \<and>
   p_pc (run env_shm_open_fails (round_robin 87) (init env_shm_open_fails)) = P_exited 1 \<and>
   errors_printed (run env_shm_open_fails (round_robin 87) (init env_shm_open_fails)) = [Perror ''shm_open'' 13] \<and>
   first_failure env_ok = None \<and>
   p_pc (run env_ok (round_robin 87) (init env_ok)) = P_exited 0 \<and>
   errors_printed (run env_ok (round_robin 87) (init env_ok)) = []"
proof -
  have a: "first_failure env_fork2_fails = Some (''fork'', 11)"
    by (simp add: first_failure_def env_fork2_fails_def env_ok_def)
  have b: "first_failure env_shm_open_fails = Some (''shm_open'', 13)"
    by (simp add: first_failure_def env_shm_open_fails_def env_ok_def)
  have c: "first_failure env_ok = None"
    by (simp add: first_failure_def env_ok_def)
  note th = main_exit_status [OF refl refl, where sched = "[]", unfolded append_Nil]
  note fails = th [THEN conjunct2, THEN conjunct1, rule_format]
  note succeeds = th [THEN conjunct1, rule_format]
  show ?thesis
    using a b c fails [OF a] fails [OF b] succeeds [OF c] by simp
qed

text \<open>
  C9 (size of the record): for every size and alignment of \<open>int\<close> up to 8 bytes, the text
  buffer ends before the flag starts, the flag ends within the record, and the record
  is at most \<open>SHM_SIZE\<close> bytes. With a 4-byte \<open>int\<close> the record has 264 bytes.
\<close>

theorem record_fits_region:
  assumes "0 < int_align" and "int_align \<le> 8" and "int_size \<le> 8"
  shows "offset_text_message int_size + MAX_MSG_LEN \<le> offset_ready int_size int_align \<and>
         offset_ready int_size int_align + int_size \<le> sizeof_SharedMessage int_size int_align \<and>
         sizeof_SharedMessage int_size int_align \<le> SHM_SIZE"
proof -
  have t: "offset_text_message int_size = int_size"
    by (simp add: offset_text_message_def offset_message_id_def align_up_def)
  have r: "int_size + 256 \<le> offset_ready int_size int_align \<and>
           offset_ready int_size int_align < int_size + 256 + int_align"
    unfolding offset_ready_def t MAX_MSG_LEN_def using align_up_bounds [OF assms(1)] by simp
  have m: "max int_align 1 = int_align" using assms(1) by simp
  have z: "offset_ready int_size int_align + int_size \<le> sizeof_SharedMessage int_size int_align \<and>
           sizeof_SharedMessage int_size int_align < offset_ready int_size int_align + int_size + int_align"
    unfolding sizeof_SharedMessage_def m using align_up_bounds [OF assms(1)] by simp
  show ?thesis using t r z assms by (simp add: MAX_MSG_LEN_def SHM_SIZE_def)
qed

theorem record_fits_region_witness:
  "(0::nat) < 4 \<and> (4::nat) \<le> 8 \<and> sizeof_SharedMessage 4 4 = 264 \<and>
   offset_text_message 4 = 4 \<and> offset_ready 4 4 = 260 \<and> sizeof_SharedMessage 4 4 \<le> SHM_SIZE"
proof -
  have a: "(0::nat) < 4" and b: "(4::nat) \<le> 8" by simp_all
  have c: "sizeof_SharedMessage 4 4 = 264" "offset_text_message 4 = 4" "offset_ready 4 4 = 260"
    by (simp_all add: sizeof_SharedMessage_def offset_ready_def offset_text_message_def
        offset_message_id_def align_up_def MAX_MSG_LEN_def)
  have d: "sizeof_SharedMessage 4 4 \<le> SHM_SIZE"
    using record_fits_region [OF a b b] by (elim conjE)
  show ?thesis using a b c d by (intro conjI)
qed

text \<open>
  C10 (no overflow of the text buffer): in every run on a region whose text buffer has
  \<open>MAX_MSG_LEN\<close> bytes, the buffer keeps that length, and it holds a NUL once the Writer
  exists. Whenever the Writer is at its \<open>snprintf\<close> of line 113 its counter is
  between 1 and 5, the call stores 43 bytes (42 characters and the NUL), and the step
  leaves a buffer of \<open>MAX_MSG_LEN\<close> bytes that is NUL-terminated and reads back as the
  whole formatted text, with the identifier and the flag next to it unchanged.
\<close>

theorem writer_text_stays_within_buffer:
  assumes "length (text_message (region0 e)) = MAX_MSG_LEN"
    and "s = run e sched (init e)"
  shows "length (text_message (shm s)) = MAX_MSG_LEN \<and>
         (w_pc s \<noteq> W_unborn \<longrightarrow> null_terminated (text_message (shm s))) \<and>
         (w_pc s = W_snprintf \<longrightarrow>
            1 \<le> w_i s \<and> w_i s \<le> 5 \<and>
            length (snprintf_bytes MAX_MSG_LEN (writer_format (w_i s))) = 43 \<and>
            (\<exists>s'. step e Writer s = Some s' \<and>
                  length (text_message (shm s')) = MAX_MSG_LEN \<and>
                  null_terminated (text_message (shm s')) \<and>
                  c_string (text_message (shm s')) = writer_format (w_i s) \<and>
                  message_id (shm s') = message_id (shm s) \<and>
                  ready (shm s') = ready (shm s)))"
proof -
  have ctrl: "inv_ctrl e s" unfolding assms(2) by (rule reachable_inv_ctrl)
  then have w: "inv_writer s" by (simp add: inv_ctrl_def)
  have slot: "inv_slot s" unfolding assms(2) using assms(1) by (rule reachable_inv_slot)
  have len: "length (text_message (shm s)) = MAX_MSG_LEN"
    using slot by (simp add: inv_slot_def)
  have nt: "w_pc s \<noteq> W_unborn \<longrightarrow> null_terminated (text_message (shm s))"
    using slot by (simp add: inv_slot_def w_unborn_iff)
  have 3: "w_pc s = W_snprintf \<longrightarrow>
            1 \<le> w_i s \<and> w_i s \<le> 5 \<and>
            length (snprintf_bytes MAX_MSG_LEN (writer_format (w_i s))) = 43 \<and>
            (\<exists>s'. step e Writer s = Some s' \<and>
                  length (text_message (shm s')) = MAX_MSG_LEN \<and>
                  null_terminated (text_message (shm s')) \<and>
                  c_string (text_message (shm s')) = writer_format (w_i s) \<and>
                  message_id (shm s') = message_id (shm s) \<and>
                  ready (shm s') = ready (shm s))"
  proof
    assume pc: "w_pc s = W_snprintf"
    then have i: "1 \<le> w_i s" "w_i s \<le> 5" using w by (simp_all add: inv_writer_def)
    then have fmt: "length (writer_format (w_i s)) = 42 \<and> NUL \<notin> set (writer_format (w_i s))"
      by (rule writer_format_small)
    have bytes: "length (snprintf_bytes MAX_MSG_LEN (writer_format (w_i s))) = 43"
      using fmt by (simp add: snprintf_bytes_def MAX_MSG_LEN_def)
    let ?buf = "snprintf (text_message (shm s)) MAX_MSG_LEN (writer_format (w_i s))"
    let ?s' = "s\<lparr>shm := (shm s)\<lparr>text_message := ?buf\<rparr>, w_pc := W_say_wrote\<rparr>"
    have st: "step e Writer s = Some ?s'" using pc by (simp add: step_def writer_step_def)
    have l': "length ?buf = MAX_MSG_LEN" using len by (rule snprintf_length)
    have n': "null_terminated ?buf" by (rule snprintf_null_terminated) (simp add: MAX_MSG_LEN_def)
    have c': "c_string ?buf = writer_format (w_i s)"
      using fmt by (intro c_string_snprintf) (simp_all add: MAX_MSG_LEN_def)
    have "step e Writer s = Some ?s' \<and>
                  length (text_message (shm ?s')) = MAX_MSG_LEN \<and>
                  null_terminated (text_message (shm ?s')) \<and>
                  c_string (text_message (shm ?s')) = writer_format (w_i s) \<and>
                  message_id (shm ?s') = message_id (shm s) \<and>
                  ready (shm ?s') = ready (shm s)"
      using st l' n' c' by (intro conjI) simp_all
    then have "\<exists>s'. step e Writer s = Some s' \<and>
                  length (text_message (shm s')) = MAX_MSG_LEN \<and>
                  null_terminated (text_message (shm s')) \<and>
                  c_string (text_message (shm s')) = writer_format (w_i s) \<and>
                  message_id (shm s') = message_id (shm s) \<and>
                  ready (shm s') = ready (shm s)"
      by (rule exI [of _ ?s'])
    then show "1 \<le> w_i s \<and> w_i s \<le> 5 \<and>
            length (snprintf_bytes MAX_MSG_LEN (writer_format (w_i s))) = 43 \<and>
            (\<exists>s'. step e Writer s = Some s' \<and>
                  length (text_message (shm s')) = MAX_MSG_LEN \<and>
                  null_terminated (text_message (shm s')) \<and>
                  c_string (text_message (shm s')) = writer_format (w_i s) \<and>
                  message_id (shm s') = message_id (shm s) \<and>
                  ready (shm s') = ready (shm s))"
      using i bytes by (intro conjI)
  qed
  show ?thesis using len nt 3 by (intro conjI)
qed

theorem writer_text_stays_within_buffer_witness:
  "length (text_message (region0 env_stale)) = MAX_MSG_LEN \<and>
   w_pc (run env_stale (replicate 12 Parent @ replicate 4 Writer) (init env_stale)) = W_snprintf \<and>
   w_i (run env_stale (replicate 12 Parent @ replicate 4 Writer) (init env_stale)) = 1 \<and>
   length (snprintf_bytes MAX_MSG_LEN (writer_format
     (w_i (run env_stale (replicate 12 Parent @ replicate 4 Writer) (init env_stale))))) = 43 \<and>
   length (text_message (shm (run env_stale (replicate 12 Parent @ replicate 5 Writer)
     (init env_stale)))) = MAX_MSG_LEN \<and>
   null_terminated (text_message (shm (run env_stale (replicate 12 Parent @ replicate 5 Writer)
     (init env_stale))))"
proof -
  have len: "length (text_message (region0 env_stale)) = MAX_MSG_LEN"
    by (simp add: env_stale_def stale_region_def)
  have pc: "w_pc (run env_stale (replicate 12 Parent @ replicate 4 Writer) (init env_stale)) = W_snprintf"
    by code_simp
  have i: "w_i (run env_stale (replicate 12 Parent @ replicate 4 Writer) (init env_stale)) = 1"
    by code_simp
  have born: "w_pc (run env_stale (replicate 12 Parent @ replicate 5 Writer) (init env_stale)) \<noteq> W_unborn"
    by code_simp
  note th = writer_text_stays_within_buffer [OF len refl]
  note at4 = th [where sched = "replicate 12 Parent @ replicate 4 Writer"]
  note at5 = th [where sched = "replicate 12 Parent @ replicate 5 Writer"]
  have bytes: "length (snprintf_bytes MAX_MSG_LEN (writer_format
     (w_i (run env_stale (replicate 12 Parent @ replicate 4 Writer) (init env_stale))))) = 43"
    using at4 [THEN conjunct2, THEN conjunct2, rule_format, OF pc] by (elim conjE)
  have l5: "length (text_message (shm (run env_stale (replicate 12 Parent @ replicate 5 Writer)
     (init env_stale)))) = MAX_MSG_LEN"
    using at5 by (elim conjE)
  have n5: "null_terminated (text_message (shm (run env_stale (replicate 12 Parent @ replicate 5 Writer)
     (init env_stale))))"
    using at5 [THEN conjunct2, THEN conjunct1, rule_format, OF born] .
  show ?thesis using len pc i bytes l5 n5 by (intro conjI)
qed

end
